theory Spec2Isabelle
  imports Complex_Main "HOL-Library.Char_ord"
begin

section \<open>Tokens\<close>

text \<open>
  The embedding follows \<^verbatim>\<open>src/expression_parser.js\<close>. A JavaScript string is a
  \<^typ>\<open>string\<close> (code units below 256); a one-character string or \<^verbatim>\<open>undefined\<close>, as
  an index into a string returns it, is a \<^typ>\<open>char option\<close>. A member written with a
  leading underscore in the source (\<^verbatim>\<open>_pos\<close>) is written with the prefix \<open>m_\<close> here.
\<close>

datatype TokenType = EOF | PLUS | MINUS | MODULO | DIVIDE | MULTIPLY | LPAREN | RPAREN | NUMBER

record Token =
  type :: TokenType
  literal :: string

section \<open>The built-ins of the language that the source calls\<close>

text \<open>
  \<^verbatim>\<open>isNaN(+literal)\<close> applies the language's string-to-number conversion: the string is
  trimmed of white space, the empty string converts to 0, and anything else must be a
  decimal literal (optional sign, \<^verbatim>\<open>Infinity\<close>, digits with an optional fraction and
  exponent) or a binary, octal or hexadecimal integer literal; every other string
  converts to NaN.
\<close>

definition isDecimalDigit :: "char \<Rightarrow> bool" where
  "isDecimalDigit ch \<longleftrightarrow> CHR ''0'' \<le> ch \<and> ch \<le> CHR ''9''"

definition isStrWhiteSpaceChar :: "char \<Rightarrow> bool" where
  "isStrWhiteSpaceChar ch \<longleftrightarrow>
     List.member [CHR 0x09, CHR 0x0A, CHR 0x0B, CHR 0x0C, CHR 0x0D, CHR 0x20, CHR 0xA0] ch"

definition trimString :: "string \<Rightarrow> string" where
  "trimString s = rev (dropWhile isStrWhiteSpaceChar (rev (dropWhile isStrWhiteSpaceChar s)))"

definition signedDigits :: "string \<Rightarrow> string" where
  \<comment> \<open>the text after an optional sign\<close>
  "signedDigits r =
     (case r of [] \<Rightarrow> []
      | sg # r' \<Rightarrow> if sg = CHR ''+'' \<or> sg = CHR ''-'' then r' else r)"

definition isExponentPart :: "string \<Rightarrow> bool" where
  "isExponentPart s =
     (case s of [] \<Rightarrow> False
      | e # r \<Rightarrow> (e = CHR ''e'' \<or> e = CHR ''E'') \<and>
          signedDigits r \<noteq> [] \<and> list_all isDecimalDigit (signedDigits r))"

definition isStrUnsignedDecimalLiteral :: "string \<Rightarrow> bool" where
  "isStrUnsignedDecimalLiteral s =
     (s = ''Infinity'' \<or>
      (let ip = takeWhile isDecimalDigit s; r1 = dropWhile isDecimalDigit s in
       case r1 of
         [] \<Rightarrow> ip \<noteq> []
       | d # r \<Rightarrow>
           if d = CHR ''.'' then
             (let fp = takeWhile isDecimalDigit r; r2 = dropWhile isDecimalDigit r in
              (ip \<noteq> [] \<or> fp \<noteq> []) \<and> (r2 = [] \<or> isExponentPart r2))
           else ip \<noteq> [] \<and> isExponentPart r1))"

definition isStrDecimalLiteral :: "string \<Rightarrow> bool" where
  "isStrDecimalLiteral s =
     (case s of [] \<Rightarrow> False
      | sg # r \<Rightarrow>
          if sg = CHR ''+'' \<or> sg = CHR ''-'' then isStrUnsignedDecimalLiteral r
          else isStrUnsignedDecimalLiteral s)"

definition isHexDigit :: "char \<Rightarrow> bool" where
  "isHexDigit ch \<longleftrightarrow> isDecimalDigit ch \<or> (CHR ''a'' \<le> ch \<and> ch \<le> CHR ''f'')
     \<or> (CHR ''A'' \<le> ch \<and> ch \<le> CHR ''F'')"

definition isNonDecimalIntegerLiteral :: "string \<Rightarrow> bool" where
  "isNonDecimalIntegerLiteral s =
     (case s of
        z # x # ds \<Rightarrow> z = CHR ''0'' \<and> ds \<noteq> [] \<and>
          (if x = CHR ''b'' \<or> x = CHR ''B'' then list_all (\<lambda>d. d = CHR ''0'' \<or> d = CHR ''1'') ds
           else if x = CHR ''o'' \<or> x = CHR ''O'' then list_all (\<lambda>d. CHR ''0'' \<le> d \<and> d \<le> CHR ''7'') ds
           else if x = CHR ''x'' \<or> x = CHR ''X'' then list_all isHexDigit ds
           else False)
      | _ \<Rightarrow> False)"

definition isNaN_Number :: "string \<Rightarrow> bool" where
  \<comment> \<open>\<^verbatim>\<open>isNaN(+s)\<close>\<close>
  "isNaN_Number s =
     (let t = trimString s in
      t \<noteq> [] \<and> \<not> isStrDecimalLiteral t \<and> \<not> isNonDecimalIntegerLiteral t)"

text \<open>
  \<^verbatim>\<open>parseFloat\<close> skips leading white space and converts the longest prefix that is a decimal
  literal; without such a prefix the result is NaN. A finite result is kept as the exact
  decimal the prefix denotes: the rounding to a binary64 and the sign of zero are not
  modelled.
\<close>

datatype jsnumber = NaN | PosInfinity | NegInfinity | Finite rat

definition digitsValue :: "string \<Rightarrow> nat" where
  "digitsValue s = foldl (\<lambda>n d. 10 * n + (of_char d - 48)) 0 s"

definition exponentValue :: "string \<Rightarrow> int" where
  \<comment> \<open>the exponent a prefix of the text denotes, 0 when it has no exponent part\<close>
  "exponentValue s =
     (case s of [] \<Rightarrow> 0
      | e # r \<Rightarrow>
          if e = CHR ''e'' \<or> e = CHR ''E'' then
            (let ds = takeWhile isDecimalDigit (signedDigits r) in
             if ds = [] then 0
             else if take 1 r = ''-'' then - int (digitsValue ds) else int (digitsValue ds))
          else 0)"

definition scale10 :: "rat \<Rightarrow> int \<Rightarrow> rat" where
  "scale10 m k = (if 0 \<le> k then m * 10 ^ nat k else m / 10 ^ nat (- k))"

definition parseFloat :: "string \<Rightarrow> jsnumber" where
  "parseFloat s =
     (let t = dropWhile isStrWhiteSpaceChar s;
          neg = (take 1 t = ''-'');
          u = signedDigits t
      in if take 8 u = ''Infinity'' then (if neg then NegInfinity else PosInfinity)
         else
          (let ip = takeWhile isDecimalDigit u;
               r1 = dropWhile isDecimalDigit u;
               fp = (if take 1 r1 = ''.'' then takeWhile isDecimalDigit (drop 1 r1) else []);
               r2 = (if take 1 r1 = ''.'' then dropWhile isDecimalDigit (drop 1 r1) else r1);
               m = of_nat (digitsValue (ip @ fp))
           in if ip = [] \<and> fp = [] then NaN
              else Finite (scale10 (if neg then - m else m)
                             (exponentValue r2 - int (length fp)))))"

section \<open>Lexer\<close>

record Lexer =
  input :: string
  m_c :: "char option"
  m_pos :: nat
  m_next_pos :: nat

definition charAt :: "string \<Rightarrow> nat \<Rightarrow> char option" where
  \<comment> \<open>\<^verbatim>\<open>s[i]\<close>: \<^verbatim>\<open>undefined\<close> past the end\<close>
  "charAt s i = (if i < length s then Some (s ! i) else None)"

definition substring :: "string \<Rightarrow> nat \<Rightarrow> nat \<Rightarrow> string" where
  \<comment> \<open>\<^verbatim>\<open>s.substring(start, fin)\<close>: both indices are clamped to the length, and swapped
      when the first is the larger\<close>
  "substring s start fin =
     (let a = min start (length s); b = min fin (length s)
      in take (max a b - min a b) (drop (min a b) s))"

definition isNumberComponent :: "char option \<Rightarrow> bool" where
  "isNumberComponent ch =
     (case ch of None \<Rightarrow> False
      | Some x \<Rightarrow> x = CHR ''.'' \<or> (x \<ge> CHR ''0'' \<and> x \<le> CHR ''9''))"

definition isWhitespace :: "char option \<Rightarrow> bool" where
  "isWhitespace ch \<longleftrightarrow> ch = Some CHR '' '' \<or> ch = Some CHR 0x0A \<or> ch = Some CHR 0x09"

definition Lexer_next :: "Lexer \<Rightarrow> Lexer" where
  "Lexer_next l =
     l\<lparr>m_pos := m_next_pos l,
       m_next_pos := m_next_pos l + 1,
       m_c := charAt (input l) (m_next_pos l)\<rparr>"

definition peek :: "Lexer \<Rightarrow> char option" where
  "peek l = charAt (input l) (m_next_pos l)"

text \<open>The constructor stores the input and calls \<^verbatim>\<open>next()\<close> once; the initial
  \<^verbatim>\<open>_c = ''\<close> is overwritten by that call before anything reads it.\<close>

definition Lexer_new :: "string \<Rightarrow> Lexer" where
  "Lexer_new inp = Lexer_next \<lparr>input = inp, m_c = None, m_pos = 0, m_next_pos = 0\<rparr>"

function eatWhitespace :: "Lexer \<Rightarrow> Lexer" where
  "eatWhitespace l = (if isWhitespace (m_c l) then eatWhitespace (Lexer_next l) else l)"
  by pat_completeness auto
termination
  by (relation "measure (\<lambda>l. if isWhitespace (m_c l)
                               then Suc (length (input l) - m_next_pos l) else 0)")
     (auto simp: Lexer_next_def charAt_def isWhitespace_def)

declare eatWhitespace.simps [simp del]

text \<open>The loop of \<^verbatim>\<open>readNumber\<close>: \<^verbatim>\<open>while (this.isNumberComponent(this.peek())) this.next()\<close>.\<close>

function readNumber_loop :: "Lexer \<Rightarrow> Lexer" where
  "readNumber_loop l =
     (if isNumberComponent (peek l) then readNumber_loop (Lexer_next l) else l)"
  by pat_completeness auto
termination
  by (relation "measure (\<lambda>l. length (input l) - m_next_pos l)")
     (auto simp: Lexer_next_def charAt_def peek_def isNumberComponent_def split: if_splits)

declare readNumber_loop.simps [simp del]

definition readNumber :: "Lexer \<Rightarrow> string \<times> Lexer" where
  "readNumber l =
     (let start = m_pos l; l' = readNumber_loop l
      in (substring (input l') start (m_pos l' + 1), l'))"

definition isPunctuation :: "char \<Rightarrow> bool" where
  \<comment> \<open>the seven \<^verbatim>\<open>case\<close> labels of the \<^verbatim>\<open>switch\<close> in \<^verbatim>\<open>readChar\<close>\<close>
  "isPunctuation x \<longleftrightarrow> List.member ''+-%/*()'' x"

text \<open>
  \<^verbatim>\<open>readChar\<close>: every path through the body of its \<^verbatim>\<open>while\<close> returns, so the loop is a
  conditional; when its condition fails the method returns \<^verbatim>\<open>undefined\<close>.
\<close>

definition readChar :: "Lexer \<Rightarrow> string option \<times> Lexer" where
  "readChar l =
     (if m_next_pos l \<le> length (input l) then
        (let l1 = eatWhitespace l in
         case m_c l1 of
           None \<Rightarrow> (case readNumber l1 of (s, l2) \<Rightarrow> (Some s, l2))
         | Some x \<Rightarrow>
             if isPunctuation x then (Some [x], l1)
             else (case readNumber l1 of (s, l2) \<Rightarrow> (Some s, l2)))
      else (None, l))"

datatype error =
    InvalidNumberToken string       \<comment> \<open>\<^verbatim>\<open>Invalid NUMBER token "..."\<close>\<close>
  | ExpectedNumber TokenType        \<comment> \<open>\<^verbatim>\<open>expected "NUMBER" but got "..."\<close>\<close>
  | ExpectedOperator TokenType      \<comment> \<open>\<^verbatim>\<open>expected operator but got "..."\<close>\<close>
  | Expected TokenType TokenType    \<comment> \<open>\<^verbatim>\<open>expected "..." but got "..."\<close>\<close>

definition nextToken :: "Lexer \<Rightarrow> error + (Token \<times> Lexer)" where
  "nextToken l =
     (case readChar l of (lit, l1) \<Rightarrow>
        (let l2 = Lexer_next l1 in
         case lit of
           Some s \<Rightarrow>
             if s = ''+'' then Inr (\<lparr>type = PLUS, literal = s\<rparr>, l2)
             else if s = ''-'' then Inr (\<lparr>type = MINUS, literal = s\<rparr>, l2)
             else if s = ''%'' then Inr (\<lparr>type = MODULO, literal = s\<rparr>, l2)
             else if s = ''/'' then Inr (\<lparr>type = DIVIDE, literal = s\<rparr>, l2)
             else if s = ''*'' then Inr (\<lparr>type = MULTIPLY, literal = s\<rparr>, l2)
             else if s = ''('' then Inr (\<lparr>type = LPAREN, literal = s\<rparr>, l2)
             else if s = '')'' then Inr (\<lparr>type = RPAREN, literal = s\<rparr>, l2)
             else if isNaN_Number s then Inl (InvalidNumberToken s)
             else Inr (\<lparr>type = NUMBER, literal = s\<rparr>, l2)
         | None \<Rightarrow> Inr (\<lparr>type = EOF, literal = ''''\<rparr>, l2)))"

section \<open>Expressions and the parser\<close>

text \<open>
  The three classes that extend \<^verbatim>\<open>Expression\<close>, with their members in the order
  \<^verbatim>\<open>token\<close>, then \<^verbatim>\<open>value\<close> for a number, \<^verbatim>\<open>op\<close> and \<^verbatim>\<open>rhs\<close> for a prefix expression,
  \<^verbatim>\<open>op\<close>, \<^verbatim>\<open>lhs\<close> and \<^verbatim>\<open>rhs\<close> for an infix expression.
\<close>

datatype Expression =
    NumberExpression Token jsnumber
  | PrefixExpression Token string Expression
  | InfixExpression Token string Expression Expression

fun print :: "Expression \<Rightarrow> string" where
  "print (NumberExpression tok v) = literal tok"
| "print (PrefixExpression tok opr r) = ''('' @ opr @ print r @ '')''"
| "print (InfixExpression tok opr l r) = ''('' @ print l @ '' '' @ opr @ '' '' @ print r @ '')''"

definition TokenPrecedence_get :: "TokenType \<Rightarrow> int" where
  "TokenPrecedence_get ty =
     (case ty of
        MODULO \<Rightarrow> 9
      | DIVIDE \<Rightarrow> 8
      | MULTIPLY \<Rightarrow> 7
      | EOF \<Rightarrow> - 1
      | LPAREN \<Rightarrow> - 1
      | RPAREN \<Rightarrow> - 1
      | _ \<Rightarrow> 1)"

record Parser =
  m_token :: Token
  m_next_token :: Token
  lexer :: Lexer

definition Parser_next :: "Parser \<Rightarrow> error + Parser" where
  "Parser_next ps =
     (case nextToken (lexer ps) of
        Inl e \<Rightarrow> Inl e
      | Inr (t, l) \<Rightarrow> Inr (ps\<lparr>m_token := m_next_token ps, m_next_token := t, lexer := l\<rparr>))"

definition expect :: "TokenType \<Rightarrow> Parser \<Rightarrow> error + Parser" where
  "expect ty ps =
     (if type (m_next_token ps) = ty then Parser_next ps
      else Inl (Expected ty (type (m_next_token ps))))"

definition nextPrecedence :: "Parser \<Rightarrow> int" where
  "nextPrecedence ps = TokenPrecedence_get (type (m_next_token ps))"

definition currentPrecedence :: "Parser \<Rightarrow> int" where
  "currentPrecedence ps = TokenPrecedence_get (type (m_token ps))"

definition NumberExpression_new :: "Token \<Rightarrow> error + Expression" where
  "NumberExpression_new tok =
     (if type tok \<noteq> NUMBER then Inl (ExpectedNumber (type tok))
      else Inr (NumberExpression tok (parseFloat (literal tok))))"

definition isOperator :: "TokenType \<Rightarrow> bool" where
  \<comment> \<open>the five \<^verbatim>\<open>case\<close> labels that share a branch in both \<^verbatim>\<open>switch\<close>es of \<^verbatim>\<open>parse\<close>\<close>
  "isOperator ty \<longleftrightarrow> ty = PLUS \<or> ty = MINUS \<or> ty = MODULO \<or> ty = DIVIDE \<or> ty = MULTIPLY"

text \<open>
  The measure for the termination of the parser: the characters the lexer has not passed,
  and the tokens the parser holds that are not \<^verbatim>\<open>EOF\<close>.
\<close>

definition remaining :: "Lexer \<Rightarrow> nat" where
  "remaining l = length (input l) + 1 - m_next_pos l"

definition weight :: "Token \<Rightarrow> nat" where
  "weight t = (if type t = EOF then 0 else 1)"

definition pending :: "Parser \<Rightarrow> nat" where
  "pending ps = remaining (lexer ps) + weight (m_token ps) + weight (m_next_token ps)"

definition ctor_measure :: "Parser \<Rightarrow> nat" where
  "ctor_measure ps = 4 * pending ps + (if type (m_token ps) = EOF then 4 else 0)"

text \<open>
  \<^verbatim>\<open>parse\<close>, its \<^verbatim>\<open>while\<close> loop (\<open>parse_loop\<close>, with the accumulated \<^verbatim>\<open>lhs\<close> as an
  argument), \<^verbatim>\<open>parseGroup\<close> and the constructors of \<^verbatim>\<open>PrefixExpression\<close> and
  \<^verbatim>\<open>InfixExpression\<close>, which call back into the parser, are mutually recursive. Each
  returns the expression with the parser's new state, or the error thrown. The
  recursion is nested (the loop goes on from the state the recursive call returns), so
  its termination rests on a bound on that state, proved below: the measure of the
  state never grows.
\<close>

function parse :: "int \<Rightarrow> Parser \<Rightarrow> error + (Expression \<times> Parser)"
  and parse_loop :: "int \<Rightarrow> Expression \<Rightarrow> Parser \<Rightarrow> error + (Expression \<times> Parser)"
  and parseGroup :: "Parser \<Rightarrow> error + (Expression \<times> Parser)"
  and PrefixExpression_new :: "Parser \<Rightarrow> error + (Expression \<times> Parser)"
  and InfixExpression_new :: "Expression \<Rightarrow> Parser \<Rightarrow> error + (Expression \<times> Parser)"
where
  "parse p ps =
     (case (if type (m_token ps) = LPAREN then parseGroup ps
            else if isOperator (type (m_token ps)) then PrefixExpression_new ps
            else (case NumberExpression_new (m_token ps) of
                    Inl e \<Rightarrow> Inl e
                  | Inr x \<Rightarrow> Inr (x, ps))) of
        Inl e \<Rightarrow> Inl e
      | Inr (lhs, ps1) \<Rightarrow> parse_loop p lhs ps1)"
| "parse_loop p lhs ps =
     (if p < nextPrecedence ps then
        (case Parser_next ps of
           Inl e \<Rightarrow> Inl e
         | Inr ps1 \<Rightarrow>
             if isOperator (type (m_token ps1)) then
               (case InfixExpression_new lhs ps1 of
                  Inl e \<Rightarrow> Inl e
                | Inr (lhs', ps2) \<Rightarrow> parse_loop p lhs' ps2)
             else Inl (ExpectedOperator (type (m_token ps1))))
      else Inr (lhs, ps))"
| "parseGroup ps =
     (let prec = currentPrecedence ps in
      case Parser_next ps of
        Inl e \<Rightarrow> Inl e
      | Inr ps1 \<Rightarrow>
          (case parse prec ps1 of
             Inl e \<Rightarrow> Inl e
           | Inr (e, ps2) \<Rightarrow>
               (case expect RPAREN ps2 of
                  Inl er \<Rightarrow> Inl er
                | Inr ps3 \<Rightarrow> Inr (e, ps3))))"
| "PrefixExpression_new ps =
     (let tok = m_token ps; opr = literal tok; prec = currentPrecedence ps in
      case Parser_next ps of
        Inl e \<Rightarrow> Inl e
      | Inr ps1 \<Rightarrow>
          (case parse prec ps1 of
             Inl e \<Rightarrow> Inl e
           | Inr (r, ps2) \<Rightarrow> Inr (PrefixExpression tok opr r, ps2)))"
| "InfixExpression_new lhs ps =
     (let tok = m_token ps; opr = literal tok; prec = currentPrecedence ps in
      case Parser_next ps of
        Inl e \<Rightarrow> Inl e
      | Inr ps1 \<Rightarrow>
          (case parse prec ps1 of
             Inl e \<Rightarrow> Inl e
           | Inr (r, ps2) \<Rightarrow> Inr (InfixExpression tok opr lhs r, ps2)))"
  by pat_completeness auto

text \<open>
  The constructor of \<^verbatim>\<open>Parser\<close> calls \<^verbatim>\<open>next()\<close> twice. Both token members are
  \<^verbatim>\<open>undefined\<close> before; the token that stands for them here is overwritten by the two
  calls before anything reads it.
\<close>

definition Parser_new :: "Lexer \<Rightarrow> error + Parser" where
  "Parser_new l =
     (let u = \<lparr>type = EOF, literal = ''''\<rparr> in
      case Parser_next \<lparr>m_token = u, m_next_token = u, lexer = l\<rparr> of
        Inl e \<Rightarrow> Inl e
      | Inr ps \<Rightarrow> Parser_next ps)"

text \<open>The program at the end of the file: a lexer and a parser for the input,
  \<^verbatim>\<open>parser.parse()\<close> with the default \<^verbatim>\<open>p = 0\<close>, and \<^verbatim>\<open>exp.print()\<close>.\<close>

definition parse_source :: "string \<Rightarrow> error + Expression" where
  "parse_source s =
     (case Parser_new (Lexer_new s) of
        Inl e \<Rightarrow> Inl e
      | Inr ps \<Rightarrow> (case parse 0 ps of Inl e \<Rightarrow> Inl e | Inr (x, ps') \<Rightarrow> Inr x))"

definition print_source :: "string \<Rightarrow> error + string" where
  "print_source s = (case parse_source s of Inl e \<Rightarrow> Inl e | Inr x \<Rightarrow> Inr (print x))"

section \<open>Notions used to state the properties\<close>

text \<open>
  The parser's state once the constructor has loaded the first two tokens, for an input
  on which it succeeds.
\<close>

definition sample_parser :: "string \<Rightarrow> Parser" where
  "sample_parser s = projr (Parser_new (Lexer_new s))"

text \<open>
  The source throws plain \<^verbatim>\<open>Error\<close> objects, told apart by their messages only. The
  specification names three kinds of failure; \<open>failure_of\<close> gives each of the four
  \<^verbatim>\<open>throw\<close> statements the kind whose description in the specification it fits: the
  lexer's is the invalid number literal, \<^verbatim>\<open>expect\<close>'s (called for \<^verbatim>\<open>RPAREN\<close> only) the
  unmatched parenthesis, and the two that reject a token where an operand or an operator
  has to stand the unexpected token.
\<close>

datatype failure = InvalidNumberLiteral | UnexpectedToken | UnmatchedParenthesis

fun failure_of :: "error \<Rightarrow> failure" where
  "failure_of (InvalidNumberToken s) = InvalidNumberLiteral"
| "failure_of (ExpectedNumber t) = UnexpectedToken"
| "failure_of (ExpectedOperator t) = UnexpectedToken"
| "failure_of (Expected ty t) = UnmatchedParenthesis"

text \<open>
  Grouping as the specification words it: move past the \<^verbatim>\<open>(\<close>, parse a sub-expression
  at minimum precedence 0, then require the next token to be \<^verbatim>\<open>)\<close> and move onto it. (The
  source passes the precedence of the \<^verbatim>\<open>(\<close> token, which is \<open>- 1\<close>.)
\<close>

definition parseGroup_spec :: "Parser \<Rightarrow> error + (Expression \<times> Parser)" where
  "parseGroup_spec ps =
     (case Parser_next ps of
        Inl e \<Rightarrow> Inl e
      | Inr ps1 \<Rightarrow>
          (case parse 0 ps1 of
             Inl e \<Rightarrow> Inl e
           | Inr (e, ps2) \<Rightarrow>
               if type (m_next_token ps2) = RPAREN then
                 (case Parser_next ps2 of Inl er \<Rightarrow> Inl er | Inr ps3 \<Rightarrow> Inr (e, ps3))
               else Inl (Expected RPAREN (type (m_next_token ps2)))))"




section \<open>Termination of the parser\<close>

lemma eatWhitespace_frame:
  "input (eatWhitespace l) = input l \<and> m_next_pos l \<le> m_next_pos (eatWhitespace l)"
proof (induction l rule: eatWhitespace.induct)
  case (1 l)
  show ?case
  proof (cases "isWhitespace (m_c l)")
    case True
    with 1 show ?thesis
      by (subst (1 2) eatWhitespace.simps) (simp add: Lexer_next_def)
  next
    case False
    then show ?thesis by (subst (1 2) eatWhitespace.simps) simp
  qed
qed

lemma readNumber_loop_frame:
  "input (readNumber_loop l) = input l \<and> m_next_pos l \<le> m_next_pos (readNumber_loop l)"
proof (induction l rule: readNumber_loop.induct)
  case (1 l)
  show ?case
  proof (cases "isNumberComponent (peek l)")
    case True
    with 1 show ?thesis
      by (subst (1 2) readNumber_loop.simps) (simp add: Lexer_next_def)
  next
    case False
    then show ?thesis by (subst (1 2) readNumber_loop.simps) simp
  qed
qed

lemma readChar_cases:
  assumes "readChar l = (r, l')"
  shows "(r = None \<and> l' = l \<and> \<not> m_next_pos l \<le> length (input l)) \<or>
         (r \<noteq> None \<and> m_next_pos l \<le> length (input l) \<and>
            (l' = eatWhitespace l \<or> l' = readNumber_loop (eatWhitespace l)))"
proof (cases "m_next_pos l \<le> length (input l)")
  case False
  with assms show ?thesis by (simp add: readChar_def)
next
  case True
  show ?thesis
  proof (cases "m_c (eatWhitespace l)")
    case None
    with True assms show ?thesis
      by (simp add: readChar_def readNumber_def Let_def split: prod.splits) blast
  next
    case (Some x)
    with True assms show ?thesis
      by (cases "isPunctuation x")
         (simp_all add: readChar_def readNumber_def Let_def split: prod.splits, blast+)
  qed
qed

lemma readChar_frame:
  assumes "readChar l = (r, l')"
  shows "input l' = input l" and "m_next_pos l \<le> m_next_pos l'"
    and "r \<noteq> None \<Longrightarrow> m_next_pos l \<le> length (input l)"
proof -
  note c = readChar_cases [OF assms]
  note e = eatWhitespace_frame [of l]
  note n = readNumber_loop_frame [of "eatWhitespace l"]
  from c e n show "input l' = input l" by (elim disjE conjE) simp_all
  from c e n show "m_next_pos l \<le> m_next_pos l'" by (elim disjE conjE) simp_all
  from c show "r \<noteq> None \<Longrightarrow> m_next_pos l \<le> length (input l)" by blast
qed

lemma nextToken_remaining:
  assumes "nextToken l = Inr (t, l')"
  shows "remaining l' + weight t \<le> remaining l"
proof -
  obtain r l1 where rc: "readChar l = (r, l1)" by (cases "readChar l")
  note fr = readChar_frame [OF rc]
  from assms rc have l': "l' = Lexer_next l1"
    by (auto simp: nextToken_def Let_def split: option.splits if_splits)
  from assms rc have "type t \<noteq> EOF \<Longrightarrow> r \<noteq> None"
    by (auto simp: nextToken_def Let_def split: option.splits if_splits)
  with fr l' show ?thesis
    by (auto simp: remaining_def weight_def Lexer_next_def)
qed

lemma Parser_next_pending:
  assumes "Parser_next ps = Inr ps'"
  shows "pending ps' + weight (m_token ps) \<le> pending ps"
  using assms nextToken_remaining [of "lexer ps"]
  by (auto simp: Parser_next_def pending_def split: sum.splits)


lemma results_pending:
  shows "parse_parse_loop_parseGroup_PrefixExpression_new_InfixExpression_new_dom (Inl (Inl (p, ps))) \<Longrightarrow>
          (\<forall>e ps'. parse p ps = Inr (e, ps') \<longrightarrow> pending ps' \<le> pending ps)"
    and "parse_parse_loop_parseGroup_PrefixExpression_new_InfixExpression_new_dom (Inl (Inr (p, lhs, ps))) \<Longrightarrow>
          (\<forall>e ps'. parse_loop p lhs ps = Inr (e, ps') \<longrightarrow> pending ps' \<le> pending ps)"
    and "parse_parse_loop_parseGroup_PrefixExpression_new_InfixExpression_new_dom (Inr (Inl ps)) \<Longrightarrow>
          (\<forall>e ps'. parseGroup ps = Inr (e, ps') \<longrightarrow> pending ps' + weight (m_token ps) \<le> pending ps)"
    and "parse_parse_loop_parseGroup_PrefixExpression_new_InfixExpression_new_dom (Inr (Inr (Inl ps))) \<Longrightarrow>
          (\<forall>e ps'. PrefixExpression_new ps = Inr (e, ps') \<longrightarrow> pending ps' + weight (m_token ps) \<le> pending ps)"
    and "parse_parse_loop_parseGroup_PrefixExpression_new_InfixExpression_new_dom (Inr (Inr (Inr (lhs, ps)))) \<Longrightarrow>
          (\<forall>e ps'. InfixExpression_new lhs ps = Inr (e, ps') \<longrightarrow> pending ps' + weight (m_token ps) \<le> pending ps)"
proof (induct rule: parse_parse_loop_parseGroup_PrefixExpression_new_InfixExpression_new.pinduct)
  case (1 p ps)
  show ?case
  proof (intro allI impI)
    fix e ps'
    assume res: "parse p ps = Inr (e, ps')"
    let ?prim = "if type (m_token ps) = LPAREN then parseGroup ps
            else if isOperator (type (m_token ps)) then PrefixExpression_new ps
            else (case NumberExpression_new (m_token ps) of
                    Inl e \<Rightarrow> Inl e
                  | Inr x \<Rightarrow> Inr (x, ps))"
    from res obtain lhs ps1 where prim: "?prim = Inr (lhs, ps1)"
      and loop: "parse_loop p lhs ps1 = Inr (e, ps')"
      by (simp add: parse.psimps [OF "1.hyps"(1)] split: sum.splits prod.splits)
    from "1.hyps"(4) [OF prim refl] loop have a: "pending ps' \<le> pending ps1" by blast
    have b: "pending ps1 \<le> pending ps"
    proof (cases "type (m_token ps) = LPAREN")
      case True
      with prim have "parseGroup ps = Inr (lhs, ps1)" by simp
      with "1.hyps"(2) [OF True]
      have "pending ps1 + weight (m_token ps) \<le> pending ps" by blast
      then show ?thesis by simp
    next
      case False
      show ?thesis
      proof (cases "isOperator (type (m_token ps))")
        case True
        with False prim have "PrefixExpression_new ps = Inr (lhs, ps1)" by simp
        with "1.hyps"(3) [OF False True]
        have "pending ps1 + weight (m_token ps) \<le> pending ps" by blast
        then show ?thesis by simp
      next
        case nop: False
        with False prim have "ps1 = ps" by (simp split: sum.splits)
        then show ?thesis by simp
      qed
    qed
    from a b show "pending ps' \<le> pending ps" by simp
  qed
next
  case (2 p lhs ps)
  show ?case
  proof (intro allI impI)
    fix e ps'
    assume res: "parse_loop p lhs ps = Inr (e, ps')"
    show "pending ps' \<le> pending ps"
    proof (cases "p < nextPrecedence ps")
      case False
      with res show ?thesis by (simp add: parse_loop.psimps [OF "2.hyps"(1)])
    next
      case True
      with res obtain ps1 lhs' ps2 where n: "Parser_next ps = Inr ps1"
        and isop: "isOperator (type (m_token ps1))"
        and inf: "InfixExpression_new lhs ps1 = Inr (lhs', ps2)"
        and loop: "parse_loop p lhs' ps2 = Inr (e, ps')"
        by (auto simp: parse_loop.psimps [OF "2.hyps"(1)] split: sum.splits if_splits)
      from "2.hyps"(2) [OF True n isop] inf
      have "pending ps2 + weight (m_token ps1) \<le> pending ps1" by blast
      then have "pending ps2 \<le> pending ps1" by simp
      moreover from "2.hyps"(3) [OF True n isop inf refl] loop
      have "pending ps' \<le> pending ps2" by blast
      moreover from Parser_next_pending [OF n] have "pending ps1 \<le> pending ps" by simp
      ultimately show ?thesis by simp
    qed
  qed
next
  case (3 ps)
  show ?case
  proof (intro allI impI)
    fix e ps'
    assume res: "parseGroup ps = Inr (e, ps')"
    then obtain ps1 ps2 where n: "Parser_next ps = Inr ps1"
      and p: "parse (currentPrecedence ps) ps1 = Inr (e, ps2)"
      and ex: "expect RPAREN ps2 = Inr ps'"
      by (auto simp: parseGroup.psimps [OF "3.hyps"(1)] split: sum.splits)
    from "3.hyps"(2) [OF refl n] p have "pending ps2 \<le> pending ps1" by blast
    moreover from ex have "pending ps' \<le> pending ps2"
      using Parser_next_pending [of ps2 ps'] by (auto simp: expect_def split: if_splits)
    moreover note Parser_next_pending [OF n]
    ultimately show "pending ps' + weight (m_token ps) \<le> pending ps" by simp
  qed
next
  case (4 ps)
  show ?case
  proof (intro allI impI)
    fix e ps'
    assume res: "PrefixExpression_new ps = Inr (e, ps')"
    then obtain ps1 r where n: "Parser_next ps = Inr ps1"
      and p: "parse (currentPrecedence ps) ps1 = Inr (r, ps')"
      by (auto simp: PrefixExpression_new.psimps [OF "4.hyps"(1)] Let_def split: sum.splits)
    from "4.hyps"(2) [OF refl refl refl n] p have "pending ps' \<le> pending ps1" by blast
    with Parser_next_pending [OF n]
    show "pending ps' + weight (m_token ps) \<le> pending ps" by simp
  qed
next
  case (5 lhs ps)
  show ?case
  proof (intro allI impI)
    fix e ps'
    assume res: "InfixExpression_new lhs ps = Inr (e, ps')"
    then obtain ps1 r where n: "Parser_next ps = Inr ps1"
      and p: "parse (currentPrecedence ps) ps1 = Inr (r, ps')"
      by (auto simp: InfixExpression_new.psimps [OF "5.hyps"(1)] Let_def split: sum.splits)
    from "5.hyps"(2) [OF refl refl refl n] p have "pending ps' \<le> pending ps1" by blast
    with Parser_next_pending [OF n]
    show "pending ps' + weight (m_token ps) \<le> pending ps" by simp
  qed
qed

lemma isOperator_not_EOF: "isOperator ty \<Longrightarrow> ty \<noteq> EOF"
  by (auto simp: isOperator_def)

lemma ctor_measure_next:
  assumes "Parser_next ps = Inr b"
  shows "4 * pending b + 3 < ctor_measure ps"
  using Parser_next_pending [OF assms] by (auto simp: ctor_measure_def weight_def split: if_splits)

termination parse
proof (relation "measure (\<lambda>x. case x of
      Inl (Inl (p, ps)) \<Rightarrow> 4 * pending ps + 3
    | Inl (Inr (p, lhs, ps)) \<Rightarrow> 4 * pending ps + 2
    | Inr (Inl ps) \<Rightarrow> ctor_measure ps
    | Inr (Inr (Inl ps)) \<Rightarrow> ctor_measure ps
    | Inr (Inr (Inr (lhs, ps))) \<Rightarrow> ctor_measure ps)", goal_cases)
  case 1
  show ?case by simp
next
  case (2 p ps)
  then show ?case by (simp add: ctor_measure_def)
next
  case (3 p ps)
  with isOperator_not_EOF [OF 3(2)] show ?case by (simp add: ctor_measure_def)
next
  case (4 p ps b x y)
  from 4(2) have b: "b = (x, y)" by simp
  have "pending y \<le> pending ps"
  proof (cases "type (m_token ps) = LPAREN")
    case True
    with 4(1) b have "parseGroup ps = Inr (x, y)" by simp
    with results_pending(3) [OF 4(4) [OF True]]
    have "pending y + weight (m_token ps) \<le> pending ps" by blast
    then show ?thesis by simp
  next
    case False
    show ?thesis
    proof (cases "isOperator (type (m_token ps))")
      case True
      with False 4(1) b have "PrefixExpression_new ps = Inr (x, y)" by simp
      with results_pending(4) [OF 4(3) [OF False True]]
      have "pending y + weight (m_token ps) \<le> pending ps" by blast
      then show ?thesis by simp
    next
      case nop: False
      with False 4(1) b have "y = ps" by (simp split: sum.splits)
      then show ?thesis by simp
    qed
  qed
  with b show ?case by simp
next
  case (5 p lhs ps b)
  from Parser_next_pending [OF 5(2)] have "pending b \<le> pending ps" by simp
  with isOperator_not_EOF [OF 5(3)] show ?case by (simp add: ctor_measure_def)
next
  case (6 p lhs ps b ba x y)
  from 6(5) have ba: "ba = (x, y)" by simp
  from 6(4) ba results_pending(5) [OF 6(6)]
  have "pending y + weight (m_token b) \<le> pending b" by blast
  moreover from isOperator_not_EOF [OF 6(3)] have "weight (m_token b) = 1"
    by (simp add: weight_def)
  moreover from Parser_next_pending [OF 6(2)] have "pending b \<le> pending ps" by simp
  ultimately show ?case using ba by simp
next
  case (7 ps x b)
  then show ?case by (simp add: ctor_measure_next)
next
  case (8 ps x xa xb b)
  then show ?case by (simp add: ctor_measure_next)
next
  case (9 lhs ps x xa xb b)
  then show ?case by (simp add: ctor_measure_next)
qed

declare parse.simps [simp del] parse_loop.simps [simp del] parseGroup.simps [simp del]
  PrefixExpression_new.simps [simp del] InfixExpression_new.simps [simp del]

section \<open>The loop's threshold\<close>

lemma TokenPrecedence_get_low: "- 1 < TokenPrecedence_get ty \<longleftrightarrow> 0 < TokenPrecedence_get ty"
  by (cases ty) (simp_all add: TokenPrecedence_get_def)

lemma parse_loop_low: "parse_loop (- 1) lhs ps = parse_loop 0 lhs ps"
proof -
  have "p = 0 \<longrightarrow> parse_loop (- 1) lhs ps = parse_loop p lhs ps" for p
  proof (induct p lhs ps rule: parse_parse_loop_parseGroup_PrefixExpression_new_InfixExpression_new.induct(2)
      [where ?P1.0 = "\<lambda>_ _. True" and ?P3.0 = "\<lambda>_. True" and ?P4.0 = "\<lambda>_. True"
         and ?P5.0 = "\<lambda>_ _. True"])
    case (2 p lhs ps)
    show ?case
    proof
      assume p: "p = 0"
      show "parse_loop (- 1) lhs ps = parse_loop p lhs ps"
      proof (cases "0 < nextPrecedence ps")
        case False
        then show ?thesis
          by (simp add: p parse_loop.simps [of _ lhs ps] nextPrecedence_def TokenPrecedence_get_low)
      next
        case True
        show ?thesis
        proof (cases "Parser_next ps")
          case (Inl e)
          with True show ?thesis
            by (simp add: p parse_loop.simps [of _ lhs ps] nextPrecedence_def
                  TokenPrecedence_get_low)
        next
          case (Inr ps1)
          show ?thesis
          proof (cases "isOperator (type (m_token ps1))")
            case False
            with True Inr show ?thesis
              by (simp add: p parse_loop.simps [of _ lhs ps] nextPrecedence_def
                    TokenPrecedence_get_low)
          next
            case isop: True
            show ?thesis
            proof (cases "InfixExpression_new lhs ps1")
              case (Inl e)
              with True Inr isop show ?thesis
                by (simp add: p parse_loop.simps [of _ lhs ps] nextPrecedence_def
                      TokenPrecedence_get_low)
            next
              case inf: (Inr r)
              obtain lhs' ps2 where r: "r = (lhs', ps2)" by (cases r)
              from True p have c: "p < nextPrecedence ps" by simp
              from "2.hyps"(2) [OF c Inr isop inf [unfolded r] refl] p
              have "parse_loop (- 1) lhs' ps2 = parse_loop p lhs' ps2" by simp
              with True Inr isop inf r show ?thesis
                by (simp add: p parse_loop.simps [of _ lhs ps] nextPrecedence_def
                      TokenPrecedence_get_low)
            qed
          qed
        qed
      qed
    qed
  qed simp_all
  then show ?thesis by simp
qed

lemma parse_low: "parse (- 1) ps = parse 0 ps"
  unfolding parse.simps [of _ ps] parse_loop_low ..

lemma parse_loop_stop:
  "nextPrecedence ps \<le> p \<Longrightarrow> parse_loop p lhs ps = Inr (lhs, ps)"
  by (simp add: parse_loop.simps [of p lhs ps])

lemma Parser_next_token:
  "Parser_next ps = Inr ps1 \<Longrightarrow> m_token ps1 = m_next_token ps"
  by (auto simp: Parser_next_def split: sum.splits)

section \<open>Precedence\<close>

text \<open>
  C1. The parser honours the precedence of \<^verbatim>\<open>*\<close> over \<^verbatim>\<open>+\<close>: the input \<^verbatim>\<open>1 + 2 * 3\<close>
  parses to a tree that prints as \<^verbatim>\<open>(1 + (2 * 3))\<close>, and \<^verbatim>\<open>1 * 2 + 3\<close> to a tree that
  prints as \<^verbatim>\<open>((1 * 2) + 3)\<close>.
\<close>

theorem precedence_of_times_over_plus:
  "print_source ''1 + 2 * 3'' = Inr ''(1 + (2 * 3))'' \<and>
   print_source ''1 * 2 + 3'' = Inr ''((1 * 2) + 3)''"
  by code_simp

section \<open>Associativity\<close>

lemma parse_number:
  assumes "type (m_token ps) = NUMBER" and "nextPrecedence ps \<le> p"
  shows "parse p ps =
    Inr (NumberExpression (m_token ps) (parseFloat (literal (m_token ps))), ps)"
  using assms
  by (simp add: parse.simps [of p ps] isOperator_def NumberExpression_new_def parse_loop_stop)








section \<open>Grouping\<close>

lemma parseGroup_eq_spec:
  assumes "type (m_token ps) = LPAREN"
  shows "parseGroup ps = parseGroup_spec ps"
proof -
  from assms have "currentPrecedence ps = - 1"
    by (simp add: currentPrecedence_def TokenPrecedence_get_def)
  then show ?thesis
    by (simp add: parseGroup.simps [of ps] parseGroup_spec_def parse_low expect_def
          split: sum.splits prod.splits)
qed

text \<open>
  C3. When the current token is \<^verbatim>\<open>(\<close>, \<^verbatim>\<open>parse\<close> parses a complete sub-expression at
  minimum precedence 0 and then requires the next token to be \<^verbatim>\<open>)\<close>, as \<open>parseGroup_spec\<close>
  does, before it goes on with its loop; so grouping overrides the precedence around it,
  and \<^verbatim>\<open>(1 + 2) * 3\<close> parses to a tree that prints as \<^verbatim>\<open>((1 + 2) * 3)\<close>.
\<close>

theorem grouping:
  "(type (m_token ps) = LPAREN \<longrightarrow>
      parse p ps =
        (case parseGroup_spec ps of
           Inl e \<Rightarrow> Inl e
         | Inr (lhs, ps1) \<Rightarrow> parse_loop p lhs ps1)) \<and>
   print_source ''(1 + 2) * 3'' = Inr ''((1 + 2) * 3)''"
proof (intro conjI impI)
  assume "type (m_token ps) = LPAREN"
  then show "parse p ps =
        (case parseGroup_spec ps of
           Inl e \<Rightarrow> Inl e
         | Inr (lhs, ps1) \<Rightarrow> parse_loop p lhs ps1)"
    by (simp add: parse.simps [of p ps] parseGroup_eq_spec)
next
  show "print_source ''(1 + 2) * 3'' = Inr ''((1 + 2) * 3)''" by code_simp
qed

theorem grouping_witness:
  "Parser_new (Lexer_new ''(1 + 2) * 3'') = Inr (sample_parser ''(1 + 2) * 3'') \<and>
   type (m_token (sample_parser ''(1 + 2) * 3'')) = LPAREN \<and>
   (case parse 0 (sample_parser ''(1 + 2) * 3'') of Inl e \<Rightarrow> Inl e | Inr (x, ps') \<Rightarrow> Inr (print x)) = Inr ''((1 + 2) * 3)'' \<and>
   (case parseGroup_spec (sample_parser ''(1 + 2) * 3'') of Inl e \<Rightarrow> Inl e | Inr (x, ps') \<Rightarrow> Inr (print x, type (m_token ps'), type (m_next_token ps')))
      = Inr (''(1 + 2)'', RPAREN, MULTIPLY)"
proof -
  have a: "Parser_new (Lexer_new ''(1 + 2) * 3'') = Inr (sample_parser ''(1 + 2) * 3'')"
    by code_simp
  have h: "type (m_token (sample_parser ''(1 + 2) * 3'')) = LPAREN" by code_simp
  have g: "(case parseGroup_spec (sample_parser ''(1 + 2) * 3'') of Inl e \<Rightarrow> Inl e | Inr (x, ps') \<Rightarrow> Inr (print x, type (m_token ps'), type (m_next_token ps')))
      = Inr (''(1 + 2)'', RPAREN, MULTIPLY)" by code_simp
  have p: "(case (case parseGroup_spec (sample_parser ''(1 + 2) * 3'') of
           Inl e \<Rightarrow> Inl e
         | Inr (lhs, ps1) \<Rightarrow> parse_loop 0 lhs ps1) of Inl e \<Rightarrow> Inl e | Inr (x, ps') \<Rightarrow> Inr (print x)) = Inr ''((1 + 2) * 3)''" by code_simp
  from grouping [of "sample_parser ''(1 + 2) * 3''" 0] h
  have "parse 0 (sample_parser ''(1 + 2) * 3'') = (case parseGroup_spec (sample_parser ''(1 + 2) * 3'') of
           Inl e \<Rightarrow> Inl e
         | Inr (lhs, ps1) \<Rightarrow> parse_loop 0 lhs ps1)" by blast
  with a h g p show ?thesis by simp
qed

section \<open>Prefix operators\<close>

lemma isOperator_not_LPAREN: "isOperator ty \<Longrightarrow> ty \<noteq> LPAREN"
  by (auto simp: isOperator_def)

lemma parse_prefix:
  assumes "isOperator (type (m_token ps))"
  shows "parse p ps =
      (case Parser_next ps of
         Inl e \<Rightarrow> Inl e
       | Inr ps1 \<Rightarrow>
           (case parse (TokenPrecedence_get (type (m_token ps))) ps1 of
              Inl e \<Rightarrow> Inl e
            | Inr (r, ps2) \<Rightarrow>
                parse_loop p (PrefixExpression (m_token ps) (literal (m_token ps)) r) ps2))"
  using assms isOperator_not_LPAREN [OF assms]
  by (simp add: parse.simps [of p ps] PrefixExpression_new.simps [of ps] currentPrecedence_def
        Let_def split: sum.splits prod.splits)

text \<open>
  C4. The operand of a prefix operator is parsed at that operator's own precedence: when
  the current token is an operator, \<^verbatim>\<open>parse\<close> moves past it, parses the operand with the
  operator's precedence as the minimum, and goes on with its loop from the prefix
  expression. So in \<^verbatim>\<open>-2 + 4.5 * 7 - -8\<close> each unary minus takes the number next to it: the
  tree prints as \<^verbatim>\<open>(((-2) + (4.5 * 7)) - (-8))\<close>.
\<close>

theorem prefix_operand:
  "(isOperator (type (m_token ps)) \<longrightarrow>
      parse p ps =
        (case Parser_next ps of
           Inl e \<Rightarrow> Inl e
         | Inr ps1 \<Rightarrow>
             (case parse (TokenPrecedence_get (type (m_token ps))) ps1 of
                Inl e \<Rightarrow> Inl e
              | Inr (r, ps2) \<Rightarrow>
                  parse_loop p (PrefixExpression (m_token ps) (literal (m_token ps)) r) ps2))) \<and>
   print_source ''-2 + 4.5 * 7 - -8'' = Inr ''(((-2) + (4.5 * 7)) - (-8))''"
proof (intro conjI impI)
  assume "isOperator (type (m_token ps))"
  then show "parse p ps =
        (case Parser_next ps of
           Inl e \<Rightarrow> Inl e
         | Inr ps1 \<Rightarrow>
             (case parse (TokenPrecedence_get (type (m_token ps))) ps1 of
                Inl e \<Rightarrow> Inl e
              | Inr (r, ps2) \<Rightarrow>
                  parse_loop p (PrefixExpression (m_token ps) (literal (m_token ps)) r) ps2))"
    by (rule parse_prefix)
next
  show "print_source ''-2 + 4.5 * 7 - -8'' = Inr ''(((-2) + (4.5 * 7)) - (-8))''"
    by code_simp
qed

theorem prefix_operand_witness:
  "(let ps = sample_parser ''-2 * 3'' in
      Parser_new (Lexer_new ''-2 * 3'') = Inr ps \<and>
      isOperator (type (m_token ps)) \<and>
      TokenPrecedence_get (type (m_token ps)) = 1 \<and>
      (case parse 0 ps of Inl e \<Rightarrow> Inl e | Inr (x, ps') \<Rightarrow> Inr (print x)) = Inr ''(-(2 * 3))'')"
proof -
  let ?ps = "sample_parser ''-2 * 3''"
  have a: "Parser_new (Lexer_new ''-2 * 3'') = Inr ?ps" by code_simp
  have h: "isOperator (type (m_token ?ps))" by code_simp
  have q: "TokenPrecedence_get (type (m_token ?ps)) = 1" by code_simp
  have r: "(case (case Parser_next ?ps of
           Inl e \<Rightarrow> Inl e
         | Inr ps1 \<Rightarrow>
             (case parse (TokenPrecedence_get (type (m_token ?ps))) ps1 of
                Inl e \<Rightarrow> Inl e
              | Inr (r, ps2) \<Rightarrow>
                  parse_loop 0 (PrefixExpression (m_token ?ps) (literal (m_token ?ps)) r) ps2))
            of Inl e \<Rightarrow> Inl e | Inr (x, ps') \<Rightarrow> Inr (print x)) = Inr ''(-(2 * 3))''"
    by code_simp
  from prefix_operand [of ?ps 0] h
  have "parse 0 ?ps = (case Parser_next ?ps of
           Inl e \<Rightarrow> Inl e
         | Inr ps1 \<Rightarrow>
             (case parse (TokenPrecedence_get (type (m_token ?ps))) ps1 of
                Inl e \<Rightarrow> Inl e
              | Inr (r, ps2) \<Rightarrow>
                  parse_loop 0 (PrefixExpression (m_token ?ps) (literal (m_token ?ps)) r) ps2))"
    by blast
  with a h q r show ?thesis by (simp add: Let_def)
qed

section \<open>Failures\<close>

lemma parse_unclosed:
  assumes "type (m_token ps) = LPAREN" and "Parser_next ps = Inr ps1"
    and "parse 0 ps1 = Inr (e, ps2)" and "type (m_next_token ps2) \<noteq> RPAREN"
  shows "parse p ps = Inl (Expected RPAREN (type (m_next_token ps2)))"
  using assms
  by (simp add: parse.simps [of p ps] parseGroup_eq_spec parseGroup_spec_def)

text \<open>
  C6, as amended. When the current token is \<^verbatim>\<open>(\<close>, the sub-expression after it parses,
  and the token that follows the sub-expression is not \<^verbatim>\<open>)\<close>, the parse aborts with the
  error of \<^verbatim>\<open>expect\<close> (the unmatched parenthesis) and returns no tree; \<^verbatim>\<open>(1 + 2\<close> is such
  an input.
\<close>

theorem unmatched_parenthesis:
  "(type (m_token ps) = LPAREN \<and> Parser_next ps = Inr ps1 \<and> parse 0 ps1 = Inr (e, ps2) \<and>
      type (m_next_token ps2) \<noteq> RPAREN \<longrightarrow>
        parse p ps = Inl (Expected RPAREN (type (m_next_token ps2))) \<and>
        failure_of (Expected RPAREN (type (m_next_token ps2))) = UnmatchedParenthesis) \<and>
   parse_source ''(1 + 2'' = Inl (Expected RPAREN EOF)"
proof (intro conjI impI)
  assume "type (m_token ps) = LPAREN \<and> Parser_next ps = Inr ps1 \<and> parse 0 ps1 = Inr (e, ps2) \<and>
      type (m_next_token ps2) \<noteq> RPAREN"
  then show "parse p ps = Inl (Expected RPAREN (type (m_next_token ps2)))"
    by (simp add: parse_unclosed)
next
  show "failure_of (Expected RPAREN (type (m_next_token ps2))) = UnmatchedParenthesis" by simp
next
  show "parse_source ''(1 + 2'' = Inl (Expected RPAREN EOF)" by code_simp
qed

theorem unmatched_parenthesis_witness:
  "(let ps = sample_parser ''(1 + 2''; ps1 = projr (Parser_next ps); r = projr (parse 0 ps1) in
      Parser_new (Lexer_new ''(1 + 2'') = Inr ps \<and> type (m_token ps) = LPAREN \<and>
      Parser_next ps = Inr ps1 \<and> parse 0 ps1 = Inr r \<and> print (fst r) = ''(1 + 2)'' \<and>
      type (m_next_token (snd r)) = EOF \<and>
      parse 0 ps = Inl (Expected RPAREN EOF))"
proof -
  let ?ps = "sample_parser ''(1 + 2''"
  let ?ps1 = "projr (Parser_next ?ps)"
  let ?r = "projr (parse 0 ?ps1)"
  have a: "Parser_new (Lexer_new ''(1 + 2'') = Inr ?ps" by code_simp
  have b: "type (m_token ?ps) = LPAREN" by code_simp
  have c: "Parser_next ?ps = Inr ?ps1" by code_simp
  have d: "parse 0 ?ps1 = Inr (fst ?r, snd ?r)" by code_simp
  have e: "print (fst ?r) = ''(1 + 2)''" by code_simp
  have f: "type (m_next_token (snd ?r)) = EOF" by code_simp
  from f have g: "type (m_next_token (snd ?r)) \<noteq> RPAREN" by simp
  from unmatched_parenthesis [of ?ps ?ps1 "fst ?r" "snd ?r" 0] b c d g
  have "parse 0 ?ps = Inl (Expected RPAREN (type (m_next_token (snd ?r))))" by blast
  with a b c d e f show ?thesis by (simp add: Let_def)
qed

text \<open>
  The claim as stated, for every input with a \<^verbatim>\<open>(\<close> that is never closed, fails on the
  input \<^verbatim>\<open>(\<close>: the parse aborts where the operand is missing, with the error of the
  constructor of \<^verbatim>\<open>NumberExpression\<close>, before \<^verbatim>\<open>expect\<close> is reached.
\<close>

theorem unmatched_parenthesis_counterexample:
  "parse_source ''('' = Inl (ExpectedNumber EOF) \<and>
   failure_of (ExpectedNumber EOF) \<noteq> UnmatchedParenthesis"
  by code_simp

lemma parse_loop_number:
  assumes "type (m_next_token ps) = NUMBER" and "p < 1" and "Parser_next ps = Inr ps1"
  shows "parse_loop p lhs ps = Inl (ExpectedOperator NUMBER)"
proof -
  from assms(1) have "nextPrecedence ps = 1"
    by (simp add: nextPrecedence_def TokenPrecedence_get_def)
  moreover from assms(1) Parser_next_token [OF assms(3)]
  have "\<not> isOperator (type (m_token ps1))" and "type (m_token ps1) = NUMBER"
    by (simp_all add: isOperator_def)
  ultimately show ?thesis using assms(2,3)
    by (simp add: parse_loop.simps [of p lhs ps])
qed

lemma parse_no_operand:
  assumes "type (m_token ps) = RPAREN \<or> type (m_token ps) = EOF"
  shows "parse p ps = Inl (ExpectedNumber (type (m_token ps)))"
  using assms
  by (auto simp: parse.simps [of p ps] isOperator_def NumberExpression_new_def)

text \<open>
  C7, as amended. A \<^verbatim>\<open>NUMBER\<close> token where the loop of \<^verbatim>\<open>parse\<close> looks for an operator (two
  consecutive numbers, as in \<^verbatim>\<open>1 2\<close>) makes the parse fail with the unexpected token, as
  long as the lexer can deliver the token after it; so does a \<^verbatim>\<open>)\<close> or an \<^verbatim>\<open>EOF\<close> token
  where an operand has to stand; in both cases no tree is returned. A \<^verbatim>\<open>)\<close> that follows a
  complete operand ends the loop instead, whether or not a parenthesis is open: \<^verbatim>\<open>1)\<close>
  parses to the tree of \<^verbatim>\<open>1\<close>.
\<close>

theorem unexpected_token:
  "(type (m_next_token ps) = NUMBER \<and> p < 1 \<and> Parser_next ps = Inr ps1 \<longrightarrow>
      parse_loop p lhs ps = Inl (ExpectedOperator NUMBER) \<and>
      failure_of (ExpectedOperator NUMBER) = UnexpectedToken) \<and>
   (type (m_token ps) = RPAREN \<or> type (m_token ps) = EOF \<longrightarrow>
      parse p ps = Inl (ExpectedNumber (type (m_token ps))) \<and>
      failure_of (ExpectedNumber (type (m_token ps))) = UnexpectedToken) \<and>
   (type (m_next_token ps) = RPAREN \<and> - 1 \<le> p \<longrightarrow> parse_loop p lhs ps = Inr (lhs, ps)) \<and>
   parse_source ''1 2'' = Inl (ExpectedOperator NUMBER) \<and>
   print_source ''1)'' = Inr ''1''"
proof (intro conjI impI)
  assume "type (m_next_token ps) = NUMBER \<and> p < 1 \<and> Parser_next ps = Inr ps1"
  then show "parse_loop p lhs ps = Inl (ExpectedOperator NUMBER)"
    by (simp add: parse_loop_number)
next
  assume "type (m_token ps) = RPAREN \<or> type (m_token ps) = EOF"
  then show "parse p ps = Inl (ExpectedNumber (type (m_token ps)))"
    by (rule parse_no_operand)
next
  assume "type (m_next_token ps) = RPAREN \<and> - 1 \<le> p"
  then show "parse_loop p lhs ps = Inr (lhs, ps)"
    by (simp add: parse_loop_stop nextPrecedence_def TokenPrecedence_get_def)
next
  show "parse_source ''1 2'' = Inl (ExpectedOperator NUMBER)" by code_simp
next
  show "print_source ''1)'' = Inr ''1''" by code_simp
qed simp_all

theorem unexpected_token_witness:
  "(let ps = sample_parser ''1 2''; ps1 = projr (Parser_next ps);
        lhs = NumberExpression (m_token ps) (Finite 1) in
      Parser_new (Lexer_new ''1 2'') = Inr ps \<and> type (m_next_token ps) = NUMBER \<and>
      (0::int) < 1 \<and> Parser_next ps = Inr ps1 \<and>
      parse_loop 0 lhs ps = Inl (ExpectedOperator NUMBER)) \<and>
   (let ps = sample_parser '')'' in
      Parser_new (Lexer_new '')'') = Inr ps \<and> type (m_token ps) = RPAREN \<and>
      parse 0 ps = Inl (ExpectedNumber RPAREN)) \<and>
   (let ps = sample_parser ''1)''; lhs = NumberExpression (m_token ps) (Finite 1) in
      Parser_new (Lexer_new ''1)'') = Inr ps \<and> type (m_next_token ps) = RPAREN \<and>
      - 1 \<le> (0::int) \<and> parse_loop 0 lhs ps = Inr (lhs, ps))"
proof -
  let ?a = "sample_parser ''1 2''"
  let ?a1 = "projr (Parser_next ?a)"
  let ?b = "sample_parser '')''"
  let ?c = "sample_parser ''1)''"
  have a1: "Parser_new (Lexer_new ''1 2'') = Inr ?a" by code_simp
  have a2: "type (m_next_token ?a) = NUMBER" by code_simp
  have a3: "Parser_next ?a = Inr ?a1" by code_simp
  have b1: "Parser_new (Lexer_new '')'') = Inr ?b" by code_simp
  have b2: "type (m_token ?b) = RPAREN" by code_simp
  have c1: "Parser_new (Lexer_new ''1)'') = Inr ?c" by code_simp
  have c2: "type (m_next_token ?c) = RPAREN" by code_simp
  from unexpected_token [of ?a 0 ?a1 "NumberExpression (m_token ?a) (Finite 1)"] a2 a3
  have ra: "parse_loop 0 (NumberExpression (m_token ?a) (Finite 1)) ?a =
      Inl (ExpectedOperator NUMBER)" by simp
  from unexpected_token [of ?b 0] b2
  have rb: "parse 0 ?b = Inl (ExpectedNumber RPAREN)" by simp
  from unexpected_token [of ?c 0 _ "NumberExpression (m_token ?c) (Finite 1)"] c2
  have rc: "parse_loop 0 (NumberExpression (m_token ?c) (Finite 1)) ?c =
      Inr (NumberExpression (m_token ?c) (Finite 1), ?c)" by simp
  from a1 a2 a3 b1 b2 c1 c2 ra rb rc show ?thesis by (simp add: Let_def)
qed

text \<open>
  The claim as stated fails on \<^verbatim>\<open>1)\<close>, a closing parenthesis with nothing open: the parse
  succeeds and returns a tree.
\<close>

theorem unexpected_token_counterexample:
  "parse_source ''1)'' = Inr (NumberExpression \<lparr>type = NUMBER, literal = ''1''\<rparr> (Finite 1))"
  by code_simp

section \<open>Trailing white space\<close>

text \<open>
  \<^verbatim>\<open>readChar\<close> tests for the end of the input before it skips white space, not after. When
  only white space is left, \<^verbatim>\<open>readNumber\<close> therefore runs at the end of the input and
  returns the empty string, which \<^verbatim>\<open>isNaN(+literal)\<close> lets pass, since the empty string
  converts to 0: the lexer emits a \<^verbatim>\<open>NUMBER\<close> token with an empty literal where the end
  of the input is.
\<close>

lemma eatWhitespace_blank:
  assumes "m_c l = charAt (input l) (m_pos l)" and "m_next_pos l = m_pos l + 1"
    and "m_pos l \<le> length (input l)"
    and "list_all (\<lambda>ch. isWhitespace (Some ch)) (drop (m_pos l) (input l))"
  shows "eatWhitespace l =
    \<lparr>input = input l, m_c = None, m_pos = length (input l),
       m_next_pos = length (input l) + 1\<rparr>"
  using assms
proof (induction l rule: eatWhitespace.induct)
  case (1 l)
  show ?case
  proof (cases "isWhitespace (m_c l)")
    case True
    with "1.prems"(1) have lt: "m_pos l < length (input l)"
      by (auto simp: charAt_def isWhitespace_def split: if_splits)
    let ?l = "Lexer_next l"
    have a: "m_c ?l = charAt (input ?l) (m_pos ?l)" "m_next_pos ?l = m_pos ?l + 1"
      "input ?l = input l" "m_pos ?l = m_pos l + 1"
      using "1.prems"(2) by (simp_all add: Lexer_next_def)
    from lt a have b: "m_pos ?l \<le> length (input ?l)" by simp
    have "drop (Suc (m_pos l)) (input l) = tl (drop (m_pos l) (input l))"
      by (simp add: drop_Suc tl_drop)
    with "1.prems"(4)
    have "list_all (\<lambda>ch. isWhitespace (Some ch)) (drop (Suc (m_pos l)) (input l))"
      by (cases "drop (m_pos l) (input l)") simp_all
    with a have c: "list_all (\<lambda>ch. isWhitespace (Some ch)) (drop (m_pos ?l) (input ?l))" by simp
    from "1.IH" [OF True a(1,2) b c] a(3) True show ?thesis
      by (subst eatWhitespace.simps) simp
  next
    case False
    have "m_pos l = length (input l)"
    proof (rule ccontr)
      assume "m_pos l \<noteq> length (input l)"
      with "1.prems"(3) have lt: "m_pos l < length (input l)" by simp
      then have "input l ! m_pos l \<in> set (drop (m_pos l) (input l))"
        by (metis Cons_nth_drop_Suc list.set_intros(1))
      with "1.prems"(4) have "isWhitespace (Some (input l ! m_pos l))"
        by (simp add: list_all_iff)
      with lt "1.prems"(1) False show False by (simp add: charAt_def)
    qed
    with "1.prems"(1,2) False show ?thesis
      by (subst eatWhitespace.simps) (simp add: charAt_def)
  qed
qed

lemma Lexer_new_blank:
  assumes "s \<noteq> []" and "list_all (\<lambda>ch. isWhitespace (Some ch)) s"
  shows "eatWhitespace (Lexer_new s) =
    \<lparr>input = s, m_c = None, m_pos = length s, m_next_pos = Suc (length s)\<rparr>"
  using eatWhitespace_blank [of "Lexer_new s"] assms
  by (simp add: Lexer_new_def Lexer_next_def)

lemma nextToken_blank:
  assumes "s \<noteq> []" and "list_all (\<lambda>ch. isWhitespace (Some ch)) s"
  shows "nextToken (Lexer_new s) =
    Inr (\<lparr>type = NUMBER, literal = ''''\<rparr>,
         \<lparr>input = s, m_c = None, m_pos = Suc (length s), m_next_pos = Suc (Suc (length s))\<rparr>)"
proof -
  let ?l1 = "\<lparr>input = s, m_c = None, m_pos = length s, m_next_pos = Suc (length s)\<rparr>"
  have loop: "readNumber_loop ?l1 = ?l1"
    by (subst readNumber_loop.simps) (simp add: peek_def charAt_def isNumberComponent_def)
  have num: "readNumber ?l1 = ('''', ?l1)"
    by (simp add: readNumber_def loop substring_def Let_def)
  from assms(1) have "m_next_pos (Lexer_new s) \<le> length (input (Lexer_new s))"
    by (cases s) (simp_all add: Lexer_new_def Lexer_next_def)
  then have rc: "readChar (Lexer_new s) = (Some '''', ?l1)"
    by (simp add: readChar_def Lexer_new_blank [OF assms] num)
  have nan: "\<not> isNaN_Number ''''" by (simp add: isNaN_Number_def trimString_def)
  show ?thesis
    by (simp add: nextToken_def rc nan Lexer_next_def charAt_def)
qed

lemma nextToken_past_end:
  assumes "length (input l) < m_next_pos l"
  shows "nextToken l = Inr (\<lparr>type = EOF, literal = ''''\<rparr>, Lexer_next l)"
  using assms by (simp add: nextToken_def readChar_def)

text \<open>
  C10. For every non-empty input that consists of spaces, tabs and newlines only, the
  parse does not fail: it returns a \<^verbatim>\<open>NumberExpression\<close> whose token is a \<^verbatim>\<open>NUMBER\<close> with
  the empty string as literal and whose value is NaN, and it prints as the empty string.
\<close>

theorem blank_input:
  "s \<noteq> [] \<and> list_all (\<lambda>ch. isWhitespace (Some ch)) s \<longrightarrow>
     parse_source s = Inr (NumberExpression \<lparr>type = NUMBER, literal = ''''\<rparr> NaN) \<and>
     print_source s = Inr ''''"
proof
  assume as: "s \<noteq> [] \<and> list_all (\<lambda>ch. isWhitespace (Some ch)) s"
  let ?l2 = "\<lparr>input = s, m_c = None, m_pos = Suc (length s), m_next_pos = Suc (Suc (length s))\<rparr>"
  let ?num = "\<lparr>type = NUMBER, literal = ''''\<rparr>"
  let ?eof = "\<lparr>type = EOF, literal = ''''\<rparr>"
  from as have t1: "nextToken (Lexer_new s) = Inr (?num, ?l2)" by (simp add: nextToken_blank)
  have t2: "nextToken ?l2 = Inr (?eof, Lexer_next ?l2)" by (rule nextToken_past_end) simp
  have new: "Parser_new (Lexer_new s) =
      Inr \<lparr>m_token = ?num, m_next_token = ?eof, lexer = Lexer_next ?l2\<rparr>"
    by (simp add: Parser_new_def Parser_next_def t1 t2)
  have nan: "parseFloat '''' = NaN" by (simp add: parseFloat_def signedDigits_def)
  have "parse 0 \<lparr>m_token = ?num, m_next_token = ?eof, lexer = Lexer_next ?l2\<rparr> =
      Inr (NumberExpression ?num NaN, \<lparr>m_token = ?num, m_next_token = ?eof, lexer = Lexer_next ?l2\<rparr>)"
    by (simp add: parse_number nextPrecedence_def TokenPrecedence_get_def nan)
  with new have "parse_source s = Inr (NumberExpression ?num NaN)"
    by (simp add: parse_source_def)
  then show "parse_source s = Inr (NumberExpression ?num NaN) \<and> print_source s = Inr ''''"
    by (simp add: print_source_def)
qed

theorem blank_input_witness:
  "[CHR '' '', CHR 0x09, CHR 0x0A] \<noteq> [] \<and>
   list_all (\<lambda>ch. isWhitespace (Some ch)) [CHR '' '', CHR 0x09, CHR 0x0A] \<and>
   parse_source [CHR '' '', CHR 0x09, CHR 0x0A] =
     Inr (NumberExpression \<lparr>type = NUMBER, literal = ''''\<rparr> NaN) \<and>
   print_source [CHR '' '', CHR 0x09, CHR 0x0A] = Inr ''''"
proof -
  have a: "[CHR '' '', CHR 0x09, CHR 0x0A] \<noteq> []" by simp
  have b: "list_all (\<lambda>ch. isWhitespace (Some ch)) [CHR '' '', CHR 0x09, CHR 0x0A]"
    by (simp add: isWhitespace_def)
  from blank_input [of "[CHR '' '', CHR 0x09, CHR 0x0A]"] a b show ?thesis by blast
qed

text \<open>
  What the check in \<^verbatim>\<open>nextToken\<close> does establish: the lexer fails only with its own error,
  on a literal that converts to NaN, and the literal of every \<^verbatim>\<open>NUMBER\<close> token it emits
  converts to a number.
\<close>

lemma nextToken_error:
  assumes "nextToken l = Inl e"
  shows "\<exists>s. e = InvalidNumberToken s \<and> isNaN_Number s"
proof -
  obtain r l1 where "readChar l = (r, l1)" by (cases "readChar l")
  with assms show ?thesis
    by (cases r) (auto simp: nextToken_def Let_def split: if_splits)
qed

lemma nextToken_number:
  assumes "nextToken l = Inr (t, l')" and "type t = NUMBER"
  shows "\<not> isNaN_Number (literal t)"
proof -
  obtain r l1 where "readChar l = (r, l1)" by (cases "readChar l")
  with assms show ?thesis
    by (cases r) (auto simp: nextToken_def Let_def split: if_splits)
qed

text \<open>
  C8, at the input \<^verbatim>\<open>" "\<close>: the lexer emits a \<^verbatim>\<open>NUMBER\<close> token whose literal is the empty
  string, which is not a numeric string. (A run that does not convert, such as
  \<^verbatim>\<open>1.2.3\<close>, is rejected with the lexer's error.)
\<close>

theorem empty_number_token:
  "nextToken (Lexer_new '' '') =
     Inr (\<lparr>type = NUMBER, literal = ''''\<rparr>,
          \<lparr>input = '' '', m_c = None, m_pos = 2, m_next_pos = 3\<rparr>) \<and>
   nextToken (Lexer_new ''1.2.3'') = Inl (InvalidNumberToken ''1.2.3'')"
  by code_simp

text \<open>
  C9, at the input \<^verbatim>\<open>1\<close>: it parses to a tree that prints as \<^verbatim>\<open>1\<close>, and with one space
  appended the parse fails, because the space yields a second \<^verbatim>\<open>NUMBER\<close> token.
\<close>

theorem trailing_whitespace:
  "print_source ''1'' = Inr ''1'' \<and> print_source ''1 '' = Inl (ExpectedOperator NUMBER)"
  by code_simp

text \<open>
  C5, at the input \<^verbatim>\<open>" "\<close>: it parses to a tree that prints as the empty string, and the
  empty string does not parse. Likewise \<^verbatim>\<open>"1 + "\<close> parses to a tree that prints as
  \<^verbatim>\<open>(1 + )\<close>, which does not parse.
\<close>

theorem round_trip_blank:
  "print_source '' '' = Inr '''' \<and> print_source '''' = Inl (ExpectedNumber EOF) \<and>
   print_source ''1 + '' = Inr ''(1 + )'' \<and> print_source ''(1 + )'' = Inl (ExpectedNumber RPAREN)"
  by code_simp

end
